theory Spec2Isabelle
  imports Complex_Main "HOL-Library.AList" "HOL-Library.Sublist" "HOL-Library.Multiset"
begin

section \<open>Python values used by the advisory pipeline\<close>

text \<open>
  A Python \<open>str\<close> is a sequence of Unicode code points; the Korean literals of the
  source are written as lists of code points.  A case record is a JSON object, that is
  a \<open>dict\<close> with string keys: an association list with pairwise distinct keys, read with
  \<open>map_of\<close> and written with \<open>AList.update\<close> (an existing key keeps its position, a
  new key is appended, as in Python).  Its values are strings; the score that the
  matcher writes is an integer.
\<close>

type_synonym pystr = "nat list"

datatype pyval = PStr pystr | PInt int

type_synonym pydict = "(string \<times> pyval) list"

datatype py_error = KeyError string | TypeError pystr | ServiceError pystr

definition getitem :: "pydict \<Rightarrow> string \<Rightarrow> py_error + pyval" where
  "getitem d k = (case map_of d k of None \<Rightarrow> Inl (KeyError k) | Some v \<Rightarrow> Inr v)"

definition setitem :: "pydict \<Rightarrow> string \<Rightarrow> pyval \<Rightarrow> pydict" where
  "setitem d k v = AList.update k v d"

text \<open>The operator \<open>needle in hay\<close> on strings: some suffix of \<open>hay\<close> starts with \<open>needle\<close>.\<close>

fun py_in :: "pystr \<Rightarrow> pystr \<Rightarrow> bool" where
  "py_in needle [] = (needle = [])"
| "py_in needle (h # hay) = (prefix needle (h # hay) \<or> py_in needle hay)"

text \<open>\<open>str(n)\<close> for an integer, as an f-string field renders it.\<close>

fun digits :: "nat \<Rightarrow> pystr" where
  "digits n = (if n < 10 then [48 + n] else digits (n div 10) @ [48 + n mod 10])"

declare digits.simps [simp del]

definition str_of_int :: "int \<Rightarrow> pystr" where
  "str_of_int i = (if i < 0 then 45 # digits (nat (- i)) else digits (nat i))"

fun format_val :: "pyval \<Rightarrow> pystr" where
  "format_val (PStr s) = s"
| "format_val (PInt i) = str_of_int i"

section \<open>Keyword matcher: \<open>EnhancedTrafficAdvisor._search_similar_cases\<close>\<close>

text \<open>
  The fourteen vocabulary terms of the source, in source order: jikjin, jwahoejeon,
  uhoejeon, sinhodeung, gyocharo, noksaek, jeoksaek, hwangsaek, biboho, hwasalpyo,
  jeommyeol, hujin, chaseonbyeongyeong, juchajang.
\<close>

definition keywords_list :: "pystr list" where
  "keywords_list =
    [[51649, 51652], [51340, 54924, 51204], [50864, 54924, 51204],
     [49888, 54840, 46321], [44368, 52264, 47196], [45433, 49353],
     [51201, 49353], [54889, 49353], [48708, 48372, 54840],
     [54868, 49332, 54364], [51216, 47736], [54980, 51652],
     [52264, 49440, 48320, 44221], [51452, 52264, 51109]]"

definition user_keywords :: "pystr \<Rightarrow> pystr list" where
  "user_keywords user_input = filter (\<lambda>kw. py_in kw user_input) keywords_list"

text \<open>
  The f-string
  \<open>f"{case['vehicle_A_situation']} {case['vehicle_B_situation']} {case['accident_description']}"\<close>:
  the three lookups run left to right, and the first missing key raises.
\<close>

definition case_text :: "pydict \<Rightarrow> py_error + pystr" where
  "case_text c =
    (case getitem c ''vehicle_A_situation'' of Inl e \<Rightarrow> Inl e | Inr a \<Rightarrow>
     (case getitem c ''vehicle_B_situation'' of Inl e \<Rightarrow> Inl e | Inr b \<Rightarrow>
      (case getitem c ''accident_description'' of Inl e \<Rightarrow> Inl e | Inr d \<Rightarrow>
        Inr (format_val a @ [32] @ format_val b @ [32] @ format_val d))))"

text \<open>The inner loop \<open>for keyword in user_keywords: if keyword in case_text: score += 1\<close>.\<close>

fun score_loop :: "pystr list \<Rightarrow> pystr \<Rightarrow> int \<Rightarrow> int" where
  "score_loop [] text score = score"
| "score_loop (kw # kws) text score =
     score_loop kws text (if py_in kw text then score + 1 else score)"

text \<open>
  The outer loop over \<open>self.case_data\<close>.  It returns the corpus as the loop leaves it
  (a record with a positive score has had \<open>similarity_score\<close> assigned) together with
  either the exception that stopped the loop or the list \<open>similar_cases\<close>.  The
  records of \<open>similar_cases\<close> are the annotated records of the corpus.
\<close>

fun scan_cases :: "pystr list \<Rightarrow> pydict list \<Rightarrow> pydict list \<times> (py_error + pydict list)" where
  "scan_cases uk [] = ([], Inr [])"
| "scan_cases uk (c # cs) =
    (case case_text c of
       Inl e \<Rightarrow> (c # cs, Inl e)
     | Inr text \<Rightarrow>
        (let score = score_loop uk text 0;
             c' = (if score > 0 then setitem c ''similarity_score'' (PInt score) else c)
         in case scan_cases uk cs of
              (cs', Inl e) \<Rightarrow> (c' # cs', Inl e)
            | (cs', Inr sim) \<Rightarrow> (c' # cs', Inr (if score > 0 then c' # sim else sim))))"

text \<open>
  \<open>similar_cases.sort(key=lambda x: x['similarity_score'], reverse=True)\<close>.  The key of
  every element is read first; a missing key raises.  The keys read here are the
  integers that the loop has just assigned; a key of another type cannot occur at this
  point and is given as the \<open>TypeError\<close> of comparing it with an integer.  Python's sort
  is stable, and with \<open>reverse=True\<close> it reverses the list, sorts it in ascending order
  and reverses it again, which keeps records of equal key in their original order.
\<close>

definition sort_reverse :: "('a \<Rightarrow> int) \<Rightarrow> 'a list \<Rightarrow> 'a list" where
  "sort_reverse key xs = rev (sort_key key (rev xs))"

definition score_key :: "pydict \<Rightarrow> py_error + int" where
  "score_key c =
    (case getitem c ''similarity_score'' of
       Inl e \<Rightarrow> Inl e
     | Inr (PInt n) \<Rightarrow> Inr n
     | Inr (PStr s) \<Rightarrow>
         Inl (TypeError [39, 60, 39, 32, 110, 111, 116, 32, 115, 117, 112, 112, 111, 114, 116,
                101, 100, 32, 98, 101, 116, 119, 101, 101, 110, 32, 105, 110, 115, 116, 97,
                110, 99, 101, 115, 32, 111, 102, 32, 39, 115, 116, 114, 39, 32, 97, 110, 100,
                32, 39, 105, 110, 116, 39]))"

fun sort_keys :: "pydict list \<Rightarrow> py_error + (int \<times> pydict) list" where
  "sort_keys [] = Inr []"
| "sort_keys (c # cs) =
    (case score_key c of
       Inl e \<Rightarrow> Inl e
     | Inr n \<Rightarrow> (case sort_keys cs of Inl e \<Rightarrow> Inl e | Inr ks \<Rightarrow> Inr ((n, c) # ks)))"

definition sort_by_score_desc :: "pydict list \<Rightarrow> py_error + pydict list" where
  "sort_by_score_desc cs =
    (case sort_keys cs of
       Inl e \<Rightarrow> Inl e
     | Inr ks \<Rightarrow> Inr (map snd (sort_reverse fst ks)))"

definition search_similar_cases ::
  "pydict list \<Rightarrow> pystr \<Rightarrow> pydict list \<times> (py_error + pydict list)" where
  "search_similar_cases case_data user_input =
    (if case_data = [] then (case_data, Inr [])
     else let uk = user_keywords user_input in
       if uk = [] then (case_data, Inr [])
       else (case scan_cases uk case_data of
               (cd', Inl e) \<Rightarrow> (cd', Inl e)
             | (cd', Inr sim) \<Rightarrow>
                 (case sort_by_score_desc sim of
                    Inl e \<Rightarrow> (cd', Inl e)
                  | Inr sorted_cases \<Rightarrow> (cd', Inr (take 3 sorted_cases)))))"

text \<open>
  The specification's words for the matcher, to compare the code with: a record mentions
  a term when the term occurs in one of its three text fields, its score for a query is
  the number of vocabulary terms that the query and the record share, and records are
  ranked by descending score, equal scores by position in the corpus.
\<close>

definition text_fields :: "string list" where
  "text_fields = [''vehicle_A_situation'', ''vehicle_B_situation'', ''accident_description'']"

definition well_formed :: "pydict \<Rightarrow> bool" where
  "well_formed c = list_all (\<lambda>k. map_of c k \<noteq> None) text_fields"

definition mentions :: "pydict \<Rightarrow> pystr \<Rightarrow> bool" where
  "mentions c kw =
     list_ex (\<lambda>k. case map_of c k of None \<Rightarrow> False | Some v \<Rightarrow> py_in kw (format_val v))
       text_fields"

definition shared_terms :: "pystr \<Rightarrow> pydict \<Rightarrow> pystr list" where
  "shared_terms q c = filter (\<lambda>kw. py_in kw q \<and> mentions c kw) keywords_list"

definition shared_score :: "pystr \<Rightarrow> pydict \<Rightarrow> int" where
  "shared_score q c = int (length (shared_terms q c))"

definition ranks_before :: "pystr \<Rightarrow> pydict list \<Rightarrow> nat \<Rightarrow> nat \<Rightarrow> bool" where
  "ranks_before q corpus i j =
     (shared_score q (corpus ! j) < shared_score q (corpus ! i)
      \<or> (shared_score q (corpus ! i) = shared_score q (corpus ! j) \<and> i < j))"

definition annotate :: "pystr \<Rightarrow> pydict \<Rightarrow> pydict" where
  "annotate q c = setitem c ''similarity_score'' (PInt (shared_score q c))"

definition annotate_pos :: "pystr \<Rightarrow> pydict \<Rightarrow> pydict" where
  "annotate_pos q c = (if 0 < shared_score q c then annotate q c else c)"

definition top3_indices :: "pystr \<Rightarrow> pydict list \<Rightarrow> nat list" where
  "top3_indices q corpus =
     take 3 (sort_key (\<lambda>i. - shared_score q (corpus ! i))
               (filter (\<lambda>i. 0 < shared_score q (corpus ! i)) [0..<length corpus]))"

section \<open>Record normaliser: \<open>DocumentProcessor.load_accident_cases\<close>\<close>

record document =
  page_content :: pystr
  metadata :: pydict

datatype log_entry = LogInfo pystr | LogWarning pystr | LogError pystr

text \<open>\<open>str(e)\<close> of an exception; a \<open>KeyError\<close> prints its key in quotes.\<close>

fun error_text :: "py_error \<Rightarrow> pystr" where
  "error_text (KeyError k) = [39] @ map of_char k @ [39]"
| "error_text (TypeError m) = m"
| "error_text (ServiceError m) = m"

text \<open>\<open>str.strip()\<close> removes the white space of Unicode at both ends.\<close>

definition is_space :: "nat \<Rightarrow> bool" where
  "is_space c = (c \<in> set [9, 10, 11, 12, 13, 28, 29, 30, 31, 32, 133, 160, 5760,
     8192, 8193, 8194, 8195, 8196, 8197, 8198, 8199, 8200, 8201, 8202,
     8232, 8233, 8239, 8287, 12288])"

definition strip :: "pystr \<Rightarrow> pystr" where
  "strip s = rev (dropWhile is_space (rev (dropWhile is_space s)))"

text \<open>A list comprehension or loop whose body may raise: the first exception ends it.\<close>

fun try_map :: "('a \<Rightarrow> py_error + 'b) \<Rightarrow> 'a list \<Rightarrow> py_error + 'b list" where
  "try_map f [] = Inr []"
| "try_map f (x # xs) =
    (case f x of
       Inl e \<Rightarrow> Inl e
     | Inr y \<Rightarrow> (case try_map f xs of Inl e \<Rightarrow> Inl e | Inr ys \<Rightarrow> Inr (y # ys)))"

text \<open>
  The body of the loop: the f-string of the page content (headings sago yuhyeong,
  charyang A sanghwang, charyang B sanghwang, sago seolmyeong, gwasil biyul), stripped,
  and then the metadata dictionary.
\<close>

definition case_content :: "pydict \<Rightarrow> py_error + pystr" where
  "case_content c =
    (case getitem c ''case_id'' of Inl e \<Rightarrow> Inl e | Inr i \<Rightarrow>
     (case getitem c ''vehicle_A_situation'' of Inl e \<Rightarrow> Inl e | Inr a \<Rightarrow>
      (case getitem c ''vehicle_B_situation'' of Inl e \<Rightarrow> Inl e | Inr b \<Rightarrow>
       (case getitem c ''accident_description'' of Inl e \<Rightarrow> Inl e | Inr d \<Rightarrow>
        (case getitem c ''fault_ratio'' of Inl e \<Rightarrow> Inl e | Inr r \<Rightarrow>
          Inr (strip
            ([10, 49324, 44256, 32, 50976, 54805, 58, 32] @ format_val i
             @ [10, 10, 52264, 47049, 32, 65, 32, 49345, 54889, 58, 10] @ format_val a
             @ [10, 10, 52264, 47049, 32, 66, 32, 49345, 54889, 58, 10] @ format_val b
             @ [10, 10, 49324, 44256, 32, 49444, 47749, 58, 10] @ format_val d
             @ [10, 10, 44284, 49892, 32, 48708, 50984, 58, 32] @ format_val r
             @ 10 # replicate 16 32)))))))"

definition case_metadata :: "pydict \<Rightarrow> py_error + pydict" where
  "case_metadata c =
    (case getitem c ''case_id'' of Inl e \<Rightarrow> Inl e | Inr i \<Rightarrow>
     (case getitem c ''fault_ratio'' of Inl e \<Rightarrow> Inl e | Inr r \<Rightarrow>
       Inr [(''source'', PStr (map of_char ''accident_case'')), (''case_id'', i),
            (''fault_ratio'', r), (''type'', PStr [54032, 47168])]))"

definition case_document :: "pydict \<Rightarrow> py_error + document" where
  "case_document c =
    (case case_content c of Inl e \<Rightarrow> Inl e | Inr content \<Rightarrow>
     (case case_metadata c of Inl e \<Rightarrow> Inl e | Inr md \<Rightarrow>
       Inr \<lparr>page_content = content, metadata = md\<rparr>))"

text \<open>
  The argument is what opening and parsing the file gave: an exception or the list of
  records.  The whole body is one \<open>try\<close>: any exception is logged and the empty list is
  returned.  The result is the returned list and the lines logged.
\<close>

definition load_accident_cases :: "py_error + pydict list \<Rightarrow> document list \<times> log_entry list" where
  "load_accident_cases file =
    (case file of
       Inl e \<Rightarrow> ([], [LogError ([54032, 47168, 32, 47196, 46300, 32, 49892, 54056, 58, 32] @ error_text e)])
     | Inr cases \<Rightarrow>
        (case try_map case_document cases of
           Inl e \<Rightarrow> ([], [LogError ([54032, 47168, 32, 47196, 46300, 32, 49892, 54056, 58, 32] @ error_text e)])
         | Inr documents \<Rightarrow>
            (documents,
             [LogInfo ([44368, 53685, 49324, 44256, 32, 54032, 47168, 32]
                       @ str_of_int (int (length documents))
                       @ [44148, 32, 47196, 46300, 32, 50756, 47308])])))"

definition required_fields :: "string list" where
  "required_fields = [''case_id'', ''vehicle_A_situation'', ''vehicle_B_situation'',
                      ''accident_description'', ''fault_ratio'']"

definition has_required_fields :: "pydict \<Rightarrow> bool" where
  "has_required_fields c = list_all (\<lambda>k. map_of c k \<noteq> None) required_fields"

section \<open>Advisors\<close>

text \<open>
  The completion service and the LangChain chains are outside the repository: a chain is
  a function from its input variables to the generated text or to the exception it
  raises.  Log output of the advisors is not modelled.
\<close>

datatype message = HumanMessage pystr | AIMessage pystr

record response =
  answer :: pystr
  rtype :: string
  status :: string
  error :: "pystr option"
  similar_cases :: "pydict list option"

definition apology :: pystr where
  "apology = [51396, 49569, 54633, 45768, 45796, 46, 32, 51068, 49884, 51201, 51064, 32,
     50724, 47448, 44032, 32, 48156, 49373, 54664, 49845, 45768, 45796, 46, 32,
     45796, 49884, 32, 49884, 46020, 54644, 51452, 49464, 50836, 46]"

definition no_image_analysis :: pystr where
  "no_image_analysis = [51060, 48120, 51648, 32, 48516, 49437, 32, 44208, 44284, 32, 50630, 51020]"

definition no_related_cases :: pystr where
  "no_related_cases = [44288, 47144, 32, 54032, 47168, 32, 50630, 51020]"

text \<open>
  \<open>x or d\<close> on strings, \<open>sep.join(xs)\<close>, and the slice \<open>v[:n]\<close>: of a string its
  first \<open>n\<close> code points, of an integer the \<open>TypeError\<close> "'int' object is not
  subscriptable".
\<close>

definition or_else :: "pystr \<Rightarrow> pystr \<Rightarrow> pystr" where
  "or_else x d = (if x = [] then d else x)"

fun join :: "pystr \<Rightarrow> pystr list \<Rightarrow> pystr" where
  "join sep [] = []"
| "join sep [x] = x"
| "join sep (x # y # ys) = x @ sep @ join sep (y # ys)"

fun slice_to :: "nat \<Rightarrow> pyval \<Rightarrow> py_error + pystr" where
  "slice_to n (PStr s) = Inr (take n s)"
| "slice_to n (PInt i) =
     Inl (TypeError [39, 105, 110, 116, 39, 32, 111, 98, 106, 101, 99, 116, 32, 105, 115, 32,
            110, 111, 116, 32, 115, 117, 98, 115, 99, 114, 105, 112, 116, 97, 98, 108, 101])"

definition error_response :: "py_error \<Rightarrow> response" where
  "error_response e =
     \<lparr>answer = apology, rtype = ''error'', status = ''error'',
      error = Some (error_text e), similar_cases = None\<rparr>"

subsection \<open>\<open>SimpleTrafficAdvisor.quick_diagnosis\<close>\<close>

definition simple_quick_diagnosis ::
  "(pydict \<Rightarrow> py_error + pystr) \<Rightarrow> message list \<Rightarrow> pystr \<Rightarrow> pystr \<Rightarrow> message list \<times> response" where
  "simple_quick_diagnosis chain memory user_input image_analysis =
    (case chain [(''user_input'', PStr user_input),
                 (''image_analysis'', PStr (or_else image_analysis no_image_analysis))] of
       Inl e \<Rightarrow> (memory, error_response e)
     | Inr text \<Rightarrow>
        (memory @ [HumanMessage user_input, AIMessage text],
         \<lparr>answer = text, rtype = ''quick_diagnosis'', status = ''success'',
          error = None, similar_cases = None\<rparr>))"

subsection \<open>\<open>EnhancedTrafficAdvisor.quick_diagnosis\<close>\<close>

definition case_example :: "pydict \<Rightarrow> py_error + pystr" where
  "case_example c =
    (case getitem c ''case_id'' of Inl e \<Rightarrow> Inl e | Inr i \<Rightarrow>
     (case getitem c ''fault_ratio'' of Inl e \<Rightarrow> Inl e | Inr r \<Rightarrow>
       Inr ([45, 32] @ format_val i @ [58, 32] @ format_val r)))"

definition reference_case :: "pydict \<Rightarrow> py_error + pystr" where
  "reference_case c =
    (case getitem c ''case_id'' of Inl e \<Rightarrow> Inl e | Inr i \<Rightarrow>
     (case getitem c ''accident_description'' of Inl e \<Rightarrow> Inl e | Inr d \<Rightarrow>
      (case slice_to 100 d of Inl e \<Rightarrow> Inl e | Inr d100 \<Rightarrow>
       (case getitem c ''fault_ratio'' of Inl e \<Rightarrow> Inl e | Inr r \<Rightarrow>
         Inr ([42, 42] @ format_val i @ [42, 42, 58, 32] @ d100
              @ [46, 46, 46, 32, 40, 44284, 49892, 48708, 50984, 58, 32] @ format_val r @ [41])))))"

definition similar_case_line :: "pydict \<Rightarrow> py_error + pystr" where
  "similar_case_line c =
    (case getitem c ''case_id'' of Inl e \<Rightarrow> Inl e | Inr i \<Rightarrow>
     (case getitem c ''accident_description'' of Inl e \<Rightarrow> Inl e | Inr d \<Rightarrow>
      (case getitem c ''fault_ratio'' of Inl e \<Rightarrow> Inl e | Inr r \<Rightarrow>
        Inr (format_val i @ [58, 32] @ format_val d
             @ [32, 40, 44284, 49892, 48708, 50984, 58, 32] @ format_val r @ [41]))))"

text \<open>
  The three strings \<open>case_examples\<close>, \<open>reference_cases\<close> and \<open>similar_cases_text\<close>, built
  in this order when \<open>similar_cases\<close> is not empty.
\<close>

definition format_cases :: "pydict list \<Rightarrow> py_error + (pystr \<times> pystr \<times> pystr)" where
  "format_cases sim =
    (if sim = [] then
       Inr ([], [], [44288, 47144, 32, 54032, 47168, 44032, 32, 50630, 49845, 45768, 45796, 46])
     else
      (case try_map case_example sim of Inl e \<Rightarrow> Inl e | Inr ex \<Rightarrow>
       (case try_map reference_case sim of Inl e \<Rightarrow> Inl e | Inr refs \<Rightarrow>
        (case try_map similar_case_line sim of Inl e \<Rightarrow> Inl e | Inr ls \<Rightarrow>
          Inr (join [10] ex, join [10] refs, join [10] ls)))))"

text \<open>
  The state is \<open>self.case_data\<close> and the chat memory.  An exception anywhere in the
  \<open>try\<close> gives the error response; what the search had written into the corpus by then
  stays.
\<close>

definition quick_diagnosis ::
  "(pydict \<Rightarrow> py_error + pystr) \<Rightarrow> pydict list \<times> message list \<Rightarrow> pystr \<Rightarrow> pystr
     \<Rightarrow> (pydict list \<times> message list) \<times> response" where
  "quick_diagnosis chain st user_input image_analysis =
    (case search_similar_cases (fst st) user_input of
       (cd, Inl e) \<Rightarrow> ((cd, snd st), error_response e)
     | (cd, Inr sim) \<Rightarrow>
        (case format_cases sim of
           Inl e \<Rightarrow> ((cd, snd st), error_response e)
         | Inr (case_examples, reference_cases, similar_cases_text) \<Rightarrow>
            (case chain [(''user_input'', PStr user_input),
                         (''image_analysis'', PStr (or_else image_analysis no_image_analysis)),
                         (''similar_cases'', PStr similar_cases_text),
                         (''case_examples'', PStr (or_else case_examples no_related_cases)),
                         (''reference_cases'', PStr (or_else reference_cases no_related_cases))] of
               Inl e \<Rightarrow> ((cd, snd st), error_response e)
             | Inr text \<Rightarrow>
                ((cd, snd st @ [HumanMessage user_input, AIMessage text]),
                 \<lparr>answer = text, rtype = ''quick_diagnosis'', status = ''success'',
                  error = None, similar_cases = Some sim\<rparr>))))"

subsection \<open>\<open>TrafficAccidentAdvisor.get_advice\<close> and the vector search\<close>

record source_document =
  content :: pystr
  doc_metadata :: pydict

record advice =
  advice_answer :: pystr
  source_documents :: "source_document list"
  advice_status :: string
  advice_error :: "pystr option"

definition general_prompt :: "pystr \<Rightarrow> pystr" where
  "general_prompt question =
    [10, 45817, 49888, 51008, 32, 44368, 53685, 49324, 44256, 32, 51204, 47928, 32, 51088,
     47928, 49324, 51077, 45768, 45796, 46, 10, 45796, 51020, 32, 51656, 47928, 50640, 32,
     45824, 54644, 32, 51068, 48152, 51201, 51064, 32, 44368, 53685, 48277, 44508, 50752,
     32, 49345, 49885, 49440, 50640, 49436, 32, 51312, 50616, 54644, 51452, 49464, 50836,
     46, 10, 10, 51656, 47928, 58, 32]
    @ question @
    [10, 10, 42, 42, 51452, 51032, 42, 42, 58, 32, 51221, 54869, 54620, 32, 48277, 47456,
     32, 51088, 47928, 51012, 32, 50948, 54644, 49436, 45716, 32, 51204, 47928, 32, 48320,
     54840, 49324, 50752, 32, 49345, 45812, 51060, 32, 54596, 50836, 54633, 45768, 45796,
     46, 10]"

text \<open>
  \<open>qa_chain\<close> is \<open>None\<close> when no vector store was loaded (\<open>_setup_chains\<close>); otherwise it
  is the retrieval chain, which returns the answer and, under the key
  \<open>source_documents\<close> if present, the retrieved documents, or raises.
\<close>

definition get_advice ::
  "(pystr \<Rightarrow> py_error + pystr \<times> document list option) option \<Rightarrow> (pystr \<Rightarrow> py_error + pystr)
     \<Rightarrow> pystr \<Rightarrow> advice" where
  "get_advice qa_chain llm question =
    (case qa_chain of
       Some chain \<Rightarrow>
        (case chain question of
           Inl e \<Rightarrow> \<lparr>advice_answer = apology, source_documents = [],
                     advice_status = ''error'', advice_error = Some (error_text e)\<rparr>
         | Inr (ans, docs) \<Rightarrow>
            \<lparr>advice_answer = ans,
             source_documents =
               map (\<lambda>doc. \<lparr>content = take 300 (page_content doc) @ [46, 46, 46],
                             doc_metadata = metadata doc\<rparr>)
                   (case docs of None \<Rightarrow> [] | Some ds \<Rightarrow> ds),
             advice_status = ''success'', advice_error = None\<rparr>)
     | None \<Rightarrow>
        (case llm (general_prompt question) of
           Inl e \<Rightarrow> \<lparr>advice_answer = apology, source_documents = [],
                     advice_status = ''error'', advice_error = Some (error_text e)\<rparr>
         | Inr ans \<Rightarrow> \<lparr>advice_answer = ans, source_documents = [],
                       advice_status = ''success'', advice_error = None\<rparr>))"

text \<open>
  \<open>DocumentProcessor.search_similar_cases\<close>: \<open>vectorstore\<close> is the store the processor
  holds, \<open>loaded\<close> the one \<open>load_vectorstore\<close> would give (\<open>None\<close> when loading fails).  A
  store is its similarity search.  Without a store, and when the search raises, the
  result is the empty list.
\<close>

definition vector_search ::
  "(pystr \<Rightarrow> nat \<Rightarrow> py_error + (document \<times> 'score) list) option
    \<Rightarrow> (pystr \<Rightarrow> nat \<Rightarrow> py_error + (document \<times> 'score) list) option
    \<Rightarrow> pystr \<Rightarrow> nat \<Rightarrow> (pystr \<times> pydict \<times> 'score) list" where
  "vector_search vectorstore loaded query k =
    (case (case vectorstore of None \<Rightarrow> loaded | Some vs \<Rightarrow> Some vs) of
       None \<Rightarrow> []
     | Some vs \<Rightarrow>
        (case vs query k of
           Inl e \<Rightarrow> []
         | Inr results \<Rightarrow> map (\<lambda>(doc, score). (page_content doc, metadata doc, score)) results))"

section \<open>Example inputs\<close>

text \<open>
  The record of the specification's scenario (case A1: jikjin, jwahoejeon, gyocharo
  chungdol, 30:70) with its query (jwahoejeon jung chungdol); a corpus of five records
  whose scores for the query "jikjin jwahoejeon" are 1, 2, 1, 1 and 0; a query without
  vocabulary terms; a record without \<open>fault_ratio\<close>; a record without
  \<open>vehicle_B_situation\<close>.
\<close>

definition mk_case :: "pystr \<Rightarrow> pystr \<Rightarrow> pystr \<Rightarrow> pystr \<Rightarrow> pystr \<Rightarrow> pydict" where
  "mk_case i a b d r =
     [(''case_id'', PStr i), (''vehicle_A_situation'', PStr a), (''vehicle_B_situation'', PStr b),
      (''accident_description'', PStr d), (''fault_ratio'', PStr r)]"

definition case_a1 :: pydict where
  "case_a1 = mk_case [65, 49] [51649, 51652] [51340, 54924, 51204]
               [44368, 52264, 47196, 32, 52649, 46028] [51, 48, 58, 55, 48]"

definition query_a1 :: pystr where
  "query_a1 = [51340, 54924, 51204, 32, 51473, 32, 52649, 46028]"

definition corpus_ex :: "pydict list" where
  "corpus_ex =
    [mk_case [66, 48] [51649, 51652] [120] [121] [53, 48, 58, 53, 48],
     mk_case [66, 49] [51649, 51652] [51340, 54924, 51204] [121] [51, 48, 58, 55, 48],
     mk_case [66, 50] [120] [51340, 54924, 51204] [121] [52, 48, 58, 54, 48],
     mk_case [66, 51] [120] [121] [51649, 51652] [50, 48, 58, 56, 48],
     mk_case [66, 52] [120] [121] [122] [49, 48, 58, 57, 48]]"

definition query_ex :: pystr where
  "query_ex = [51649, 51652, 32, 51340, 54924, 51204]"

definition query_plain :: pystr where
  "query_plain = map of_char ''hello''"

definition case_bad :: pydict where
  "case_bad =
     [(''case_id'', PStr [65, 50]), (''vehicle_A_situation'', PStr [51649, 51652]),
      (''vehicle_B_situation'', PStr [54980, 51652]), (''accident_description'', PStr [121])]"

definition case_noB :: pydict where
  "case_noB =
     [(''case_id'', PStr [65, 51]), (''vehicle_A_situation'', PStr [51340, 54924, 51204]),
      (''accident_description'', PStr [121]), (''fault_ratio'', PStr [53, 48, 58, 53, 48])]"

text \<open>
  A completion chain that raises on every call, one that returns the empty text, a
  completion model that answers, and a retrieval chain that raises.
\<close>

definition chain_down :: "pydict \<Rightarrow> py_error + pystr" where
  "chain_down vars = Inl (ServiceError (map of_char ''503''))"

definition chain_empty :: "pydict \<Rightarrow> py_error + pystr" where
  "chain_empty vars = Inr []"

definition llm_ok :: "pystr \<Rightarrow> py_error + pystr" where
  "llm_ok prompt = Inr (map of_char ''ok'')"

definition qa_chain_down :: "pystr \<Rightarrow> py_error + pystr \<times> document list option" where
  "qa_chain_down question = Inl (ServiceError (map of_char ''503''))"

section \<open>Properties of the keyword matcher\<close>

lemma py_in_sublist: "py_in xs ys \<longleftrightarrow> sublist xs ys"
  by (induction ys) (auto simp: sublist_Cons_right)

lemma py_in_sep:
  assumes "s \<notin> set kw" "kw \<noteq> []"
  shows "py_in kw (a @ s # b) \<longleftrightarrow> py_in kw a \<or> py_in kw b"
proof -
  have "sublist kw (a @ s # b) \<longleftrightarrow> sublist kw a \<or> sublist kw b"
  proof
    assume "sublist kw (a @ s # b)"
    then consider "sublist kw a" | "sublist kw (s # b)"
      | xs1 xs2 where "kw = xs1 @ xs2" "suffix xs1 a" "prefix xs2 (s # b)"
      by (auto simp: sublist_append)
    then show "sublist kw a \<or> sublist kw b"
    proof cases
      case 1 then show ?thesis by simp
    next
      case 2
      then have "prefix kw (s # b) \<or> sublist kw b" by (simp add: sublist_Cons_right)
      with assms show ?thesis by (cases kw) auto
    next
      case 3
      with assms have "xs2 = []" by (cases xs2) auto
      with 3 show ?thesis by auto
    qed
  next
    assume "sublist kw a \<or> sublist kw b"
    then show "sublist kw (a @ s # b)"
      by (auto simp: sublist_append sublist_Cons_right)
  qed
  then show ?thesis by (simp add: py_in_sublist)
qed

lemma keywords_no_space: "kw \<in> set keywords_list \<Longrightarrow> 32 \<notin> set kw \<and> kw \<noteq> []"
  by (auto simp: keywords_list_def)

lemma case_text_well_formed:
  "well_formed c \<Longrightarrow> \<exists>a b d. map_of c ''vehicle_A_situation'' = Some a
     \<and> map_of c ''vehicle_B_situation'' = Some b \<and> map_of c ''accident_description'' = Some d
     \<and> case_text c = Inr (format_val a @ [32] @ format_val b @ [32] @ format_val d)"
  by (auto simp: well_formed_def text_fields_def case_text_def getitem_def)

lemma case_text_mentions:
  assumes "well_formed c" "kw \<in> set keywords_list" "case_text c = Inr t"
  shows "py_in kw t \<longleftrightarrow> mentions c kw"
proof -
  from case_text_well_formed[OF assms(1)] obtain a b d where
    f: "map_of c ''vehicle_A_situation'' = Some a" "map_of c ''vehicle_B_situation'' = Some b"
       "map_of c ''accident_description'' = Some d"
       "case_text c = Inr (format_val a @ [32] @ format_val b @ [32] @ format_val d)" by blast
  from keywords_no_space[OF assms(2)] have k: "32 \<notin> set kw" "kw \<noteq> []" by auto
  from f assms(3) have t: "t = format_val a @ 32 # (format_val b @ 32 # format_val d)" by simp
  show ?thesis unfolding t py_in_sep[OF k] using f
    by (auto simp: mentions_def text_fields_def)
qed

lemma score_loop_count: "score_loop kws t s = s + int (length (filter (\<lambda>kw. py_in kw t) kws))"
  by (induction kws arbitrary: s) auto

lemma score_loop_shared:
  assumes "well_formed c" "case_text c = Inr t"
  shows "score_loop (user_keywords q) t 0 = shared_score q c"
proof -
  have "filter (\<lambda>kw. py_in kw t) (filter (\<lambda>kw. py_in kw q) keywords_list)
      = filter (\<lambda>kw. py_in kw q \<and> mentions c kw) keywords_list"
    unfolding filter_filter
    by (rule filter_cong) (auto simp: case_text_mentions[OF assms(1) _ assms(2)])
  then show ?thesis
    by (simp add: score_loop_count user_keywords_def shared_score_def shared_terms_def)
qed

lemma map_of_setitem_other: "k' \<noteq> k \<Longrightarrow> map_of (setitem c k v) k' = map_of c k'"
  by (simp add: setitem_def update_conv')

lemma map_of_setitem_same: "map_of (setitem c k v) k = Some v"
  by (simp add: setitem_def update_conv')

lemma well_formed_annotate: "well_formed (annotate q c) = well_formed c"
  by (simp add: well_formed_def annotate_def text_fields_def map_of_setitem_other)

lemma mentions_annotate: "mentions (annotate q c) kw = mentions c kw"
  by (simp add: mentions_def annotate_def text_fields_def map_of_setitem_other)

lemma shared_score_annotate: "shared_score q' (annotate q c) = shared_score q' c"
  by (simp add: shared_score_def shared_terms_def mentions_annotate)

lemma score_key_annotate: "score_key (annotate q c) = Inr (shared_score q c)"
  by (simp add: score_key_def annotate_def getitem_def map_of_setitem_same)

lemma scan_cases_well_formed:
  assumes "\<forall>c\<in>set cs. well_formed c"
  shows "scan_cases (user_keywords q) cs =
           (map (annotate_pos q) cs, Inr (map (annotate q) (filter (\<lambda>c. 0 < shared_score q c) cs)))"
  using assms
proof (induction cs)
  case Nil
  then show ?case by simp
next
  case (Cons c cs)
  then have wf: "well_formed c" by simp
  then obtain t where t: "case_text c = Inr t" using case_text_well_formed by blast
  have s: "score_loop (user_keywords q) t 0 = shared_score q c"
    by (rule score_loop_shared[OF wf t])
  from Cons show ?case
    by (simp add: t s Let_def annotate_pos_def annotate_def)
qed

lemma sort_keys_annotate:
  "sort_keys (map (annotate q) cs) = Inr (map (\<lambda>c. (shared_score q c, annotate q c)) cs)"
  by (induction cs) (simp_all add: score_key_annotate)

lemma insort_key_map:
  "insort_key f (g x) (map g xs) = map g (insort_key (\<lambda>y. f (g y)) x xs)"
  by (induction xs) auto

lemma sort_key_map:
  "sort_key f (map g xs) = map g (sort_key (\<lambda>y. f (g y)) xs)"
  by (induction xs) (simp_all add: insort_key_map)

text \<open>Sorting in reverse is the stable sort on the negated key.\<close>

lemma sort_reverse_neg: "sort_reverse key xs = sort_key (\<lambda>x. - key x) xs"
proof -
  let ?ys = "rev (sort_key key (rev xs))"
  have 1: "mset ?ys = mset xs" by simp
  have 2: "filter (\<lambda>x. - key k = - key x) ?ys = filter (\<lambda>x. - key k = - key x) xs" for k
  proof -
    have "filter (\<lambda>x. key x = key k) (sort_key key (rev xs)) = filter (\<lambda>x. key x = key k) (rev xs)"
      by (rule sort_key_stable)
    then have "rev (filter (\<lambda>x. key x = key k) (sort_key key (rev xs)))
                 = rev (filter (\<lambda>x. key x = key k) (rev xs))" by simp
    then have "filter (\<lambda>x. key x = key k) ?ys = filter (\<lambda>x. key x = key k) xs"
      by (simp add: rev_filter)
    moreover have "(\<lambda>x. - key k = - key x) = (\<lambda>x. key x = key k)" by auto
    ultimately show ?thesis by simp
  qed
  have "sorted (map key (sort_key key (rev xs)))" by (rule sorted_sort_key)
  then have "sorted_wrt (\<lambda>a b. key a \<le> key b) (sort_key key (rev xs))"
    by (simp add: sorted_map)
  then have "sorted_wrt (\<lambda>a b. key b \<le> key a) ?ys"
    by (simp add: sorted_wrt_rev)
  then have 3: "sorted (map (\<lambda>x. - key x) ?ys)"
    by (simp add: sorted_map)
  from properties_for_sort_key[of ?ys xs "\<lambda>x. - key x", OF 1 2 3]
  show ?thesis by (simp add: sort_reverse_def)
qed

lemma sort_by_score_desc_annotate:
  "sort_by_score_desc (map (annotate q) cs)
     = Inr (map (annotate q) (sort_key (\<lambda>c. - shared_score q c) cs))"
  by (simp add: sort_by_score_desc_def sort_keys_annotate sort_reverse_neg sort_key_map o_def)

lemma user_keywords_empty_score:
  "user_keywords q = [] \<Longrightarrow> shared_score q c = 0"
  by (auto simp: user_keywords_def shared_score_def shared_terms_def filter_empty_conv)

lemma search_similar_cases_well_formed:
  assumes "\<forall>c\<in>set corpus. well_formed c"
  shows "search_similar_cases corpus q =
           (map (annotate_pos q) corpus,
            Inr (map (annotate q)
                  (take 3 (sort_key (\<lambda>c. - shared_score q c)
                             (filter (\<lambda>c. 0 < shared_score q c) corpus)))))"
proof (cases "user_keywords q = []")
  case True
  then have z: "\<And>c. shared_score q c = 0" by (rule user_keywords_empty_score)
  have "map (annotate_pos q) corpus = corpus"
    by (induction corpus) (simp_all add: annotate_pos_def z)
  then show ?thesis
    by (simp add: search_similar_cases_def True z)
next
  case False
  then show ?thesis
    by (simp add: search_similar_cases_def scan_cases_well_formed[OF assms]
        sort_by_score_desc_annotate take_map)
qed

lemma insort_key_lex:
  fixes k :: "nat \<Rightarrow> int"
  assumes "sorted_wrt (\<lambda>i j. k i < k j \<or> (k i = k j \<and> i < j)) ys" "\<forall>y\<in>set ys. x < y"
  shows "sorted_wrt (\<lambda>i j. k i < k j \<or> (k i = k j \<and> i < j)) (insort_key k x ys)"
  using assms
proof (induction ys)
  case Nil
  then show ?case by simp
next
  case (Cons y ys)
  show ?case
  proof (cases "k x \<le> k y")
    case True
    with Cons.prems show ?thesis by (fastforce simp: set_insort_key)
  next
    case False
    with Cons show ?thesis by (auto simp: set_insort_key)
  qed
qed

lemma sort_key_lex:
  fixes k :: "nat \<Rightarrow> int"
  assumes "sorted_wrt (<) ps"
  shows "sorted_wrt (\<lambda>i j. k i < k j \<or> (k i = k j \<and> i < j)) (sort_key k ps)"
  using assms
proof (induction ps)
  case Nil
  then show ?case by simp
next
  case (Cons p ps)
  then show ?case by (simp add: insort_key_lex)
qed

lemma filter_by_index:
  "filter P cs = map ((!) cs) (filter (\<lambda>i. P (cs ! i)) [0..<length cs])"
proof -
  have "filter P (map ((!) cs) [0..<length cs]) = map ((!) cs) (filter (\<lambda>i. P (cs ! i)) [0..<length cs])"
    by (simp add: filter_map o_def)
  then show ?thesis by (simp add: map_nth)
qed

lemma top3_by_index:
  "take 3 (sort_key (\<lambda>c. - shared_score q c) (filter (\<lambda>c. 0 < shared_score q c) corpus))
     = map ((!) corpus) (top3_indices q corpus)"
proof -
  have "sort_key (\<lambda>c. - shared_score q c) (filter (\<lambda>c. 0 < shared_score q c) corpus)
       = map ((!) corpus) (sort_key (\<lambda>i. - shared_score q (corpus ! i))
               (filter (\<lambda>i. 0 < shared_score q (corpus ! i)) [0..<length corpus]))"
    by (subst filter_by_index) (simp add: sort_key_map)
  then show ?thesis by (simp add: top3_indices_def take_map)
qed

lemma top3_sorted: "sorted_wrt (ranks_before q corpus) (top3_indices q corpus)"
proof -
  let ?ps = "filter (\<lambda>i. 0 < shared_score q (corpus ! i)) [0..<length corpus]"
  let ?k = "\<lambda>i. - shared_score q (corpus ! i)"
  have "sorted_wrt (<) ?ps" by (simp add: sorted_wrt_filter)
  then have "sorted_wrt (\<lambda>i j. ?k i < ?k j \<or> (?k i = ?k j \<and> i < j)) (sort_key ?k ?ps)"
    by (rule sort_key_lex)
  then have "sorted_wrt (ranks_before q corpus) (sort_key ?k ?ps)"
    by (rule sorted_wrt_mono_rel[rotated]) (auto simp: ranks_before_def)
  then show ?thesis unfolding top3_indices_def by (rule sorted_wrt_take)
qed

lemma top3_members:
  "i \<in> set (top3_indices q corpus) \<Longrightarrow> i < length corpus \<and> 0 < shared_score q (corpus ! i)"
  unfolding top3_indices_def by (auto dest!: in_set_takeD)

lemma top3_omitted:
  assumes "j < length corpus" "0 < shared_score q (corpus ! j)" "j \<notin> set (top3_indices q corpus)"
  shows "length (top3_indices q corpus) = 3 \<and> (\<forall>i\<in>set (top3_indices q corpus). ranks_before q corpus i j)"
proof -
  let ?ps = "filter (\<lambda>i. 0 < shared_score q (corpus ! i)) [0..<length corpus]"
  let ?k = "\<lambda>i. - shared_score q (corpus ! i)"
  let ?S = "sort_key ?k ?ps"
  have S: "sorted_wrt (ranks_before q corpus) (take 3 ?S @ drop 3 ?S)"
  proof -
    have "sorted_wrt (<) ?ps" by (simp add: sorted_wrt_filter)
    then have "sorted_wrt (\<lambda>i j. ?k i < ?k j \<or> (?k i = ?k j \<and> i < j)) ?S"
      by (rule sort_key_lex)
    then have "sorted_wrt (ranks_before q corpus) ?S"
      by (rule sorted_wrt_mono_rel[rotated]) (auto simp: ranks_before_def)
    then show ?thesis by simp
  qed
  from assms(1,2) have "j \<in> set ?S" by simp
  then have "j \<in> set (take 3 ?S) \<union> set (drop 3 ?S)"
    by (metis append_take_drop_id set_append)
  with assms(3) have d: "j \<in> set (drop 3 ?S)" by (simp add: top3_indices_def)
  then have "3 < length ?S" by (cases "3 < length ?S") auto
  then have l: "length (top3_indices q corpus) = 3" by (simp add: top3_indices_def)
  from S d have "\<forall>i\<in>set (take 3 ?S). ranks_before q corpus i j"
    unfolding sorted_wrt_append by blast
  with l show ?thesis by (simp add: top3_indices_def)
qed

lemma case_text_Inr_well_formed: "case_text c = Inr t \<Longrightarrow> well_formed c"
  by (auto simp: case_text_def getitem_def well_formed_def text_fields_def
      split: option.splits sum.splits)

lemma scan_cases_Inr_well_formed:
  "scan_cases uk cs = (cs', Inr sim) \<Longrightarrow> \<forall>c\<in>set cs. well_formed c"
proof (induction cs arbitrary: cs' sim)
  case Nil
  then show ?case by simp
next
  case (Cons c cs)
  from Cons.prems obtain t where t: "case_text c = Inr t"
    by (cases "case_text c") auto
  from Cons.prems t obtain cs2 sim2 where "scan_cases uk cs = (cs2, Inr sim2)"
    by (cases "scan_cases uk cs") (auto simp: Let_def split: sum.splits)
  with Cons.IH t show ?case by (auto dest: case_text_Inr_well_formed)
qed

lemma search_returns_corpus:
  assumes "snd (search_similar_cases corpus q) = Inr res"
  shows "fst (search_similar_cases corpus q) = map (annotate_pos q) corpus"
proof (cases "corpus = [] \<or> user_keywords q = []")
  case True
  then have "map (annotate_pos q) corpus = corpus"
    by (auto simp: annotate_pos_def user_keywords_empty_score intro: map_idI)
  with True show ?thesis by (auto simp: search_similar_cases_def)
next
  case False
  obtain cd r where sc: "scan_cases (user_keywords q) corpus = (cd, r)"
    by (cases "scan_cases (user_keywords q) corpus")
  with assms False obtain sim where "r = Inr sim"
    by (cases r) (auto simp: search_similar_cases_def)
  with sc have "\<forall>c\<in>set corpus. well_formed c"
    by (auto dest: scan_cases_Inr_well_formed)
  then show ?thesis by (simp add: search_similar_cases_well_formed)
qed

text \<open>
  A record without one of the three text fields makes the matcher raise \<open>KeyError\<close> as
  soon as the query has a vocabulary term.
\<close>

lemma case_text_malformed:
  "\<not> well_formed c \<Longrightarrow> \<exists>k\<in>set text_fields. case_text c = Inl (KeyError k)"
  by (auto simp: well_formed_def text_fields_def case_text_def getitem_def split: option.splits)

lemma scan_cases_malformed:
  "\<not> list_all well_formed cs \<Longrightarrow> \<exists>k\<in>set text_fields. snd (scan_cases uk cs) = Inl (KeyError k)"
proof (induction cs)
  case Nil
  then show ?case by simp
next
  case (Cons c cs)
  show ?case
  proof (cases "well_formed c")
    case False
    from case_text_malformed[OF this] show ?thesis by auto
  next
    case True
    then obtain t where t: "case_text c = Inr t" using case_text_well_formed by blast
    from True Cons.prems have "\<not> list_all well_formed cs" by simp
    from Cons.IH[OF this] obtain k where k: "k \<in> set text_fields"
      "snd (scan_cases uk cs) = Inl (KeyError k)" by blast
    then show ?thesis
      by (cases "scan_cases uk cs") (auto simp: t Let_def)
  qed
qed

lemma search_malformed_raises:
  assumes "user_keywords q \<noteq> []" "\<not> list_all well_formed corpus"
  shows "\<exists>k\<in>set text_fields. snd (search_similar_cases corpus q) = Inl (KeyError k)"
proof -
  from assms(2) have ne: "corpus \<noteq> []" by auto
  from scan_cases_malformed[OF assms(2), of "user_keywords q"] obtain k where
    "k \<in> set text_fields" "snd (scan_cases (user_keywords q) corpus) = Inl (KeyError k)" by blast
  with assms(1) ne show ?thesis
    by (cases "scan_cases (user_keywords q) corpus") (auto simp: search_similar_cases_def)
qed

subsection \<open>The matcher on the examples\<close>

lemma user_keywords_query_ex: "user_keywords query_ex = [[51649, 51652], [51340, 54924, 51204]]"
  by (simp add: user_keywords_def keywords_list_def query_ex_def)

lemma search_corpus_ex:
  "snd (search_similar_cases corpus_ex query_ex) =
     Inr [setitem (corpus_ex ! 1) ''similarity_score'' (PInt 2),
          setitem (corpus_ex ! 0) ''similarity_score'' (PInt 1),
          setitem (corpus_ex ! 2) ''similarity_score'' (PInt 1)]"
  by (simp add: search_similar_cases_def user_keywords_query_ex)
     (simp add: corpus_ex_def mk_case_def case_text_def getitem_def setitem_def
        sort_by_score_desc_def sort_reverse_def score_key_def Let_def)

lemma corpus_ex_well_formed: "list_all well_formed corpus_ex"
  by (simp add: corpus_ex_def mk_case_def well_formed_def text_fields_def)

lemma search_case_a1:
  "search_similar_cases [case_a1] query_a1 =
     ([setitem case_a1 ''similarity_score'' (PInt 1)],
      Inr [setitem case_a1 ''similarity_score'' (PInt 1)])"
  by (simp add: search_similar_cases_def user_keywords_def keywords_list_def query_a1_def)
     (simp add: case_a1_def mk_case_def case_text_def getitem_def setitem_def
        sort_by_score_desc_def sort_reverse_def score_key_def Let_def)

subsection \<open>Top three, ranked by score and then by corpus position\<close>

text \<open>
  C2 as stated fails: a corpus whose second record has no \<open>vehicle_B_situation\<close>, with
  a query that contains a vocabulary term, makes the matcher raise \<open>KeyError\<close>; it
  returns no result, and the first record has already received its score.
\<close>

theorem malformed_corpus_counterexample:
  "list_ex (\<lambda>kw. py_in kw query_a1) keywords_list
   \<and> search_similar_cases [case_a1, case_noB] query_a1 =
        ([setitem case_a1 ''similarity_score'' (PInt 1), case_noB],
         Inl (KeyError ''vehicle_B_situation''))"
  by (simp add: search_similar_cases_def user_keywords_def keywords_list_def query_a1_def)
     (simp add: case_a1_def case_noB_def mk_case_def case_text_def getitem_def setitem_def
        Let_def)

text \<open>
  C2, amended.  On a corpus whose records all carry the three text fields, the matcher
  returns the records at some corpus positions \<open>idx\<close>, each with its score written into
  \<open>similarity_score\<close>: at most three of them, each with a positive number of vocabulary
  terms shared with the query, listed by descending score and, among equal scores, in
  corpus order; a record with a positive score is left out only when three records
  ranked before it are returned.  On a corpus with a record that lacks one of the three
  fields, and a query that contains a vocabulary term, the matcher raises \<open>KeyError\<close>
  for one of these fields.
\<close>

theorem keyword_match_top3:
  "(list_all well_formed corpus \<longrightarrow>
     (\<exists>idx. snd (search_similar_cases corpus q) =
              Inr (map (\<lambda>i. setitem (corpus ! i) ''similarity_score''
                               (PInt (shared_score q (corpus ! i)))) idx)
       \<and> length idx \<le> 3
       \<and> (\<forall>i\<in>set idx. i < length corpus \<and> 0 < shared_score q (corpus ! i))
       \<and> sorted_wrt (ranks_before q corpus) idx
       \<and> (\<forall>j<length corpus. 0 < shared_score q (corpus ! j) \<and> j \<notin> set idx \<longrightarrow>
             length idx = 3 \<and> (\<forall>i\<in>set idx. ranks_before q corpus i j))))
   \<and> (\<not> list_all well_formed corpus \<and> list_ex (\<lambda>kw. py_in kw q) keywords_list \<longrightarrow>
        (\<exists>k\<in>set text_fields. snd (search_similar_cases corpus q) = Inl (KeyError k)))"
proof (intro conjI impI)
  assume "list_all well_formed corpus"
  then have wf: "\<forall>c\<in>set corpus. well_formed c"
    by (simp add: list_all_iff)
  show "\<exists>idx. snd (search_similar_cases corpus q) =
              Inr (map (\<lambda>i. setitem (corpus ! i) ''similarity_score''
                               (PInt (shared_score q (corpus ! i)))) idx)
       \<and> length idx \<le> 3
       \<and> (\<forall>i\<in>set idx. i < length corpus \<and> 0 < shared_score q (corpus ! i))
       \<and> sorted_wrt (ranks_before q corpus) idx
       \<and> (\<forall>j<length corpus. 0 < shared_score q (corpus ! j) \<and> j \<notin> set idx \<longrightarrow>
             length idx = 3 \<and> (\<forall>i\<in>set idx. ranks_before q corpus i j))"
  proof (intro exI[of _ "top3_indices q corpus"] conjI)
    show "snd (search_similar_cases corpus q) =
            Inr (map (\<lambda>i. setitem (corpus ! i) ''similarity_score''
                             (PInt (shared_score q (corpus ! i)))) (top3_indices q corpus))"
      by (simp add: search_similar_cases_well_formed[OF wf] top3_by_index annotate_def o_def)
    show "length (top3_indices q corpus) \<le> 3"
      by (simp add: top3_indices_def)
    show "\<forall>i\<in>set (top3_indices q corpus). i < length corpus \<and> 0 < shared_score q (corpus ! i)"
      using top3_members by blast
    show "sorted_wrt (ranks_before q corpus) (top3_indices q corpus)"
      by (rule top3_sorted)
    show "\<forall>j<length corpus. 0 < shared_score q (corpus ! j) \<and> j \<notin> set (top3_indices q corpus) \<longrightarrow>
            length (top3_indices q corpus) = 3
            \<and> (\<forall>i\<in>set (top3_indices q corpus). ranks_before q corpus i j)"
      using top3_omitted by blast
  qed
next
  assume a: "\<not> list_all well_formed corpus \<and> list_ex (\<lambda>kw. py_in kw q) keywords_list"
  then have "user_keywords q \<noteq> []"
    by (auto simp: user_keywords_def filter_empty_conv list_ex_iff)
  with a show "\<exists>k\<in>set text_fields. snd (search_similar_cases corpus q) = Inl (KeyError k)"
    by (simp add: search_malformed_raises)
qed

theorem keyword_match_top3_witness:
  "list_all well_formed corpus_ex \<and>
   (\<exists>idx. snd (search_similar_cases corpus_ex query_ex) =
              Inr (map (\<lambda>i. setitem (corpus_ex ! i) ''similarity_score''
                               (PInt (shared_score query_ex (corpus_ex ! i)))) idx)
     \<and> length idx \<le> 3
     \<and> (\<forall>i\<in>set idx. i < length corpus_ex \<and> 0 < shared_score query_ex (corpus_ex ! i))
     \<and> sorted_wrt (ranks_before query_ex corpus_ex) idx
     \<and> (\<forall>j<length corpus_ex. 0 < shared_score query_ex (corpus_ex ! j) \<and> j \<notin> set idx \<longrightarrow>
           length idx = 3 \<and> (\<forall>i\<in>set idx. ranks_before query_ex corpus_ex i j)))
   \<and> \<not> list_all well_formed [case_a1, case_noB]
   \<and> list_ex (\<lambda>kw. py_in kw query_a1) keywords_list
   \<and> (\<exists>k. k \<in> set text_fields
          \<and> snd (search_similar_cases [case_a1, case_noB] query_a1) = Inl (KeyError k))"
proof -
  have n: "\<not> list_all well_formed [case_a1, case_noB]"
    by (simp add: well_formed_def text_fields_def case_noB_def)
  have v: "list_ex (\<lambda>kw. py_in kw query_a1) keywords_list"
    by (simp add: keywords_list_def query_a1_def)
  from keyword_match_top3[of corpus_ex query_ex] corpus_ex_well_formed
  have 1: "\<exists>idx. snd (search_similar_cases corpus_ex query_ex) =
              Inr (map (\<lambda>i. setitem (corpus_ex ! i) ''similarity_score''
                               (PInt (shared_score query_ex (corpus_ex ! i)))) idx)
     \<and> length idx \<le> 3
     \<and> (\<forall>i\<in>set idx. i < length corpus_ex \<and> 0 < shared_score query_ex (corpus_ex ! i))
     \<and> sorted_wrt (ranks_before query_ex corpus_ex) idx
     \<and> (\<forall>j<length corpus_ex. 0 < shared_score query_ex (corpus_ex ! j) \<and> j \<notin> set idx \<longrightarrow>
           length idx = 3 \<and> (\<forall>i\<in>set idx. ranks_before query_ex corpus_ex i j))"
    by blast
  from keyword_match_top3[of "[case_a1, case_noB]" query_a1] n v
  have 2: "\<exists>k. k \<in> set text_fields
          \<and> snd (search_similar_cases [case_a1, case_noB] query_a1) = Inl (KeyError k)"
    by blast
  from corpus_ex_well_formed 1 n v 2 show ?thesis by blast
qed

subsection \<open>No vocabulary term, no match\<close>

text \<open>
  C3.  When the query contains none of the vocabulary terms, the matcher returns the
  empty list, whatever the corpus, and leaves the corpus as it was.
\<close>

theorem no_vocabulary_no_match:
  assumes "list_all (\<lambda>kw. \<not> py_in kw q) keywords_list"
  shows "search_similar_cases corpus q = (corpus, Inr [])"
proof -
  from assms have "user_keywords q = []"
    by (simp add: user_keywords_def filter_empty_conv list_all_iff)
  then show ?thesis by (simp add: search_similar_cases_def)
qed

theorem no_vocabulary_no_match_witness:
  "list_all (\<lambda>kw. \<not> py_in kw query_plain) keywords_list
   \<and> search_similar_cases corpus_ex query_plain = (corpus_ex, Inr [])"
proof -
  have h: "list_all (\<lambda>kw. \<not> py_in kw query_plain) keywords_list"
    by (simp add: keywords_list_def query_plain_def)
  from no_vocabulary_no_match[OF h, of corpus_ex] h show ?thesis by simp
qed

subsection \<open>What the matcher writes into the corpus\<close>

text \<open>
  C8 as stated fails: on the scenario record the matcher returns and the record in the
  corpus has gained the field \<open>similarity_score\<close>.
\<close>

theorem corpus_read_only_counterexample:
  "snd (search_similar_cases [case_a1] query_a1)
      = Inr [setitem case_a1 ''similarity_score'' (PInt 1)]
   \<and> map_of case_a1 ''similarity_score'' = None
   \<and> map_of (fst (search_similar_cases [case_a1] query_a1) ! 0) ''similarity_score'' = Some (PInt 1)
   \<and> fst (search_similar_cases [case_a1] query_a1) \<noteq> [case_a1]"
  by (simp add: search_case_a1) (simp add: case_a1_def mk_case_def setitem_def)

text \<open>
  C8, amended.  When the matcher returns, the corpus has the same length, every record
  with a positive score for the query has that score assigned to its field
  \<open>similarity_score\<close> and is otherwise as before, and every other record is unchanged.
\<close>

theorem matcher_writes_score:
  assumes "snd (search_similar_cases corpus q) = Inr res"
  shows "length (fst (search_similar_cases corpus q)) = length corpus
     \<and> (\<forall>i<length corpus.
          fst (search_similar_cases corpus q) ! i =
            (if 0 < shared_score q (corpus ! i)
             then setitem (corpus ! i) ''similarity_score'' (PInt (shared_score q (corpus ! i)))
             else corpus ! i))"
proof -
  have "fst (search_similar_cases corpus q) = map (annotate_pos q) corpus"
    using assms by (rule search_returns_corpus)
  then show ?thesis
    by (simp add: annotate_pos_def annotate_def)
qed

theorem matcher_writes_score_witness:
  "snd (search_similar_cases [case_a1] query_a1)
      = Inr [setitem case_a1 ''similarity_score'' (PInt 1)]
   \<and> length (fst (search_similar_cases [case_a1] query_a1)) = length [case_a1]
   \<and> fst (search_similar_cases [case_a1] query_a1) ! 0 =
         (if 0 < shared_score query_a1 case_a1
          then setitem case_a1 ''similarity_score'' (PInt (shared_score query_a1 case_a1))
          else case_a1)"
proof -
  have h: "snd (search_similar_cases [case_a1] query_a1)
             = Inr [setitem case_a1 ''similarity_score'' (PInt 1)]"
    by (simp add: search_case_a1)
  from matcher_writes_score[OF h] h show ?thesis by simp
qed

section \<open>Properties of the record normaliser\<close>

lemma case_document_complete:
  "has_required_fields c \<Longrightarrow> \<exists>d. case_document c = Inr d"
  by (auto simp: has_required_fields_def required_fields_def case_document_def case_content_def
      case_metadata_def getitem_def)

lemma case_document_incomplete:
  "\<not> has_required_fields c \<Longrightarrow> \<exists>k\<in>set required_fields. case_document c = Inl (KeyError k)"
  by (auto simp: has_required_fields_def required_fields_def case_document_def case_content_def
      case_metadata_def getitem_def split: option.splits)

lemma try_map_all:
  "\<forall>x\<in>set xs. \<exists>y. f x = Inr y \<Longrightarrow>
     \<exists>ys. try_map f xs = Inr ys \<and> length ys = length xs \<and> (\<forall>i<length xs. f (xs ! i) = Inr (ys ! i))"
proof (induction xs)
  case Nil
  then show ?case by simp
next
  case (Cons x xs)
  then obtain y where y: "f x = Inr y" by auto
  from Cons obtain ys where ys: "try_map f xs = Inr ys" "length ys = length xs"
    "\<forall>i<length xs. f (xs ! i) = Inr (ys ! i)" by auto
  show ?case
  proof (intro exI[of _ "y # ys"] conjI allI impI)
    show "try_map f (x # xs) = Inr (y # ys)" by (simp add: y ys)
    show "length (y # ys) = length (x # xs)" by (simp add: ys)
    fix i assume "i < length (x # xs)"
    then show "f ((x # xs) ! i) = Inr ((y # ys) ! i)"
      using y ys(3) by (cases i) auto
  qed
qed

lemma try_map_some_error:
  "x \<in> set xs \<Longrightarrow> f x = Inl e \<Longrightarrow> \<exists>x'\<in>set xs. \<exists>e'. f x' = Inl e' \<and> try_map f xs = Inl e'"
proof (induction xs)
  case Nil
  then show ?case by simp
next
  case (Cons a xs)
  show ?case
  proof (cases "f a")
    case (Inl e1)
    then show ?thesis by auto
  next
    case (Inr b)
    with Cons obtain x' e' where "x' \<in> set xs" "f x' = Inl e'" "try_map f xs = Inl e'"
      by auto
    with Inr show ?thesis by auto
  qed
qed

text \<open>
  C6, amended.  When every record has the five fields, the normaliser returns one
  document per record, in order, the canonical document of that record.  When some
  record lacks a required field, it logs the \<open>KeyError\<close> and returns the empty list: no
  document at all, also none for the well-formed records.  It never raises.
\<close>

theorem load_all_or_nothing:
  "(list_all has_required_fields corpus \<longrightarrow>
      (\<exists>docs. fst (load_accident_cases (Inr corpus)) = docs \<and> length docs = length corpus
         \<and> (\<forall>i<length corpus. case_document (corpus ! i) = Inr (docs ! i))))
   \<and> (\<not> list_all has_required_fields corpus \<longrightarrow>
      (\<exists>k\<in>set required_fields.
         load_accident_cases (Inr corpus) =
           ([], [LogError ([54032, 47168, 32, 47196, 46300, 32, 49892, 54056, 58, 32]
                           @ error_text (KeyError k))])))"
proof (intro conjI impI)
  assume "list_all has_required_fields corpus"
  then have "\<forall>c\<in>set corpus. \<exists>d. case_document c = Inr d"
    by (auto simp: list_all_iff dest: case_document_complete)
  from try_map_all[OF this] obtain ys where
    "try_map case_document corpus = Inr ys" "length ys = length corpus"
    "\<forall>i<length corpus. case_document (corpus ! i) = Inr (ys ! i)" by blast
  then show "\<exists>docs. fst (load_accident_cases (Inr corpus)) = docs \<and> length docs = length corpus
         \<and> (\<forall>i<length corpus. case_document (corpus ! i) = Inr (docs ! i))"
    by (simp add: load_accident_cases_def)
next
  assume "\<not> list_all has_required_fields corpus"
  then obtain c where c: "c \<in> set corpus" "\<not> has_required_fields c" by (auto simp: list_all_iff)
  from case_document_incomplete[OF c(2)] obtain k where "case_document c = Inl (KeyError k)"
    by blast
  from try_map_some_error[of c corpus case_document, OF c(1) this] obtain c' e' where
    c': "c' \<in> set corpus" "case_document c' = Inl e'" "try_map case_document corpus = Inl e'"
    by blast
  have "\<not> has_required_fields c'"
    using c'(2) case_document_complete by fastforce
  from case_document_incomplete[OF this] c'(2) obtain k' where
    "k' \<in> set required_fields" "e' = KeyError k'" by auto
  with c'(3) show "\<exists>k\<in>set required_fields.
         load_accident_cases (Inr corpus) =
           ([], [LogError ([54032, 47168, 32, 47196, 46300, 32, 49892, 54056, 58, 32]
                           @ error_text (KeyError k))])"
    by (auto simp: load_accident_cases_def)
qed

lemma complete_case_a1: "has_required_fields case_a1"
  by (simp add: has_required_fields_def required_fields_def case_a1_def mk_case_def)

lemma incomplete_case_bad: "\<not> has_required_fields case_bad"
  by (simp add: has_required_fields_def required_fields_def case_bad_def)

theorem load_all_or_nothing_witness:
  "list_all has_required_fields [case_a1]
   \<and> (\<exists>docs. fst (load_accident_cases (Inr [case_a1])) = docs \<and> length docs = length [case_a1]
         \<and> case_document ([case_a1] ! 0) = Inr (docs ! 0))
   \<and> \<not> list_all has_required_fields [case_a1, case_bad]
   \<and> (\<exists>k. k \<in> set required_fields \<and>
         load_accident_cases (Inr [case_a1, case_bad]) =
           ([], [LogError ([54032, 47168, 32, 47196, 46300, 32, 49892, 54056, 58, 32]
                           @ error_text (KeyError k))]))"
proof -
  have a: "list_all has_required_fields [case_a1]" by (simp add: complete_case_a1)
  have b: "\<not> list_all has_required_fields [case_a1, case_bad]" by (simp add: incomplete_case_bad)
  from load_all_or_nothing[of "[case_a1]"] a
  have 1: "\<exists>docs. fst (load_accident_cases (Inr [case_a1])) = docs \<and> length docs = length [case_a1]
         \<and> case_document ([case_a1] ! 0) = Inr (docs ! 0)" by simp
  from load_all_or_nothing[of "[case_a1, case_bad]"] b
  have 2: "\<exists>k. k \<in> set required_fields \<and>
         load_accident_cases (Inr [case_a1, case_bad]) =
           ([], [LogError ([54032, 47168, 32, 47196, 46300, 32, 49892, 54056, 58, 32]
                           @ error_text (KeyError k))])" by blast
  from a b 1 2 show ?thesis by blast
qed

text \<open>
  C6 as stated fails: with one well-formed and one malformed record the normaliser
  returns nothing, not the document of the well-formed record.
\<close>

theorem skip_malformed_counterexample:
  "has_required_fields case_a1 \<and> \<not> has_required_fields case_bad
   \<and> (\<exists>d. case_document case_a1 = Inr d)
   \<and> fst (load_accident_cases (Inr [case_a1, case_bad])) = []"
proof -
  have "case_document case_bad = Inl (KeyError ''fault_ratio'')"
    by (simp add: case_document_def case_content_def getitem_def case_bad_def)
  moreover from case_document_complete[OF complete_case_a1] obtain d where
    "case_document case_a1 = Inr d" by blast
  ultimately show ?thesis
    by (auto simp: load_accident_cases_def complete_case_a1 incomplete_case_bad)
qed

section \<open>Properties of the advisors\<close>

lemma quick_diagnosis_chain_fails:
  assumes "\<forall>vars. \<exists>e. chain vars = Inl e"
  shows "\<exists>e cd. quick_diagnosis chain (corpus, mem) q img = ((cd, mem), error_response e)"
proof -
  obtain cd r where s: "search_similar_cases corpus q = (cd, r)"
    by (cases "search_similar_cases corpus q")
  show ?thesis
  proof (cases r)
    case (Inl e)
    with s show ?thesis by (auto simp: quick_diagnosis_def)
  next
    case (Inr sim)
    show ?thesis
    proof (cases "format_cases sim")
      case (Inl e)
      with s Inr show ?thesis by (auto simp: quick_diagnosis_def)
    next
      case (Inr f)
      obtain a b c where f: "f = (a, b, c)" by (cases f)
      let ?vars = "[(''user_input'', PStr q),
                    (''image_analysis'', PStr (or_else img no_image_analysis)),
                    (''similar_cases'', PStr c),
                    (''case_examples'', PStr (or_else a no_related_cases)),
                    (''reference_cases'', PStr (or_else b no_related_cases))]"
      from assms obtain e where "chain ?vars = Inl e" by blast
      with s \<open>r = Inr sim\<close> Inr f show ?thesis by (auto simp: quick_diagnosis_def)
    qed
  qed
qed

text \<open>
  C9, amended.  When the completion chain raises, both advisors return the fixed
  apology with type and status \<open>error\<close> and the text of the exception in the field
  \<open>error\<close>, and leave the chat memory as it was.  An empty response is not checked: it
  is recorded in the memory and returned as the answer with status \<open>success\<close>.
\<close>

theorem diagnosis_error_and_empty:
  "((\<forall>vars. \<exists>e. chain vars = Inl e) \<longrightarrow>
      (\<exists>e. simple_quick_diagnosis chain mem q img = (mem, error_response e))
      \<and> (\<exists>e cd. quick_diagnosis chain (corpus, mem) q img = ((cd, mem), error_response e)))
   \<and> ((\<forall>vars. chain vars = Inr []) \<longrightarrow>
      simple_quick_diagnosis chain mem q img =
        (mem @ [HumanMessage q, AIMessage []],
         \<lparr>answer = [], rtype = ''quick_diagnosis'', status = ''success'',
          error = None, similar_cases = None\<rparr>)
      \<and> (\<forall>cd sim f. search_similar_cases corpus q = (cd, Inr sim) \<and> format_cases sim = Inr f \<longrightarrow>
            quick_diagnosis chain (corpus, mem) q img =
              ((cd, mem @ [HumanMessage q, AIMessage []]),
               \<lparr>answer = [], rtype = ''quick_diagnosis'', status = ''success'',
                error = None, similar_cases = Some sim\<rparr>)))"
proof (intro conjI impI allI)
  assume a: "\<forall>vars. \<exists>e. chain vars = Inl e"
  then obtain e where "chain [(''user_input'', PStr q),
       (''image_analysis'', PStr (or_else img no_image_analysis))] = Inl e" by blast
  then show "\<exists>e. simple_quick_diagnosis chain mem q img = (mem, error_response e)"
    by (auto simp: simple_quick_diagnosis_def)
  from a show "\<exists>e cd. quick_diagnosis chain (corpus, mem) q img = ((cd, mem), error_response e)"
    by (rule quick_diagnosis_chain_fails)
next
  assume "\<forall>vars. chain vars = Inr []"
  then show "simple_quick_diagnosis chain mem q img =
        (mem @ [HumanMessage q, AIMessage []],
         \<lparr>answer = [], rtype = ''quick_diagnosis'', status = ''success'',
          error = None, similar_cases = None\<rparr>)"
    by (simp add: simple_quick_diagnosis_def)
next
  fix cd sim f
  assume "\<forall>vars. chain vars = Inr []"
    and "search_similar_cases corpus q = (cd, Inr sim) \<and> format_cases sim = Inr f"
  then show "quick_diagnosis chain (corpus, mem) q img =
              ((cd, mem @ [HumanMessage q, AIMessage []]),
               \<lparr>answer = [], rtype = ''quick_diagnosis'', status = ''success'',
                error = None, similar_cases = Some sim\<rparr>)"
    by (cases f) (simp add: quick_diagnosis_def)
qed

lemma format_case_a1:
  "\<exists>f. format_cases [setitem case_a1 ''similarity_score'' (PInt 1)] = Inr f"
  by (simp add: format_cases_def case_example_def reference_case_def similar_case_line_def
      getitem_def setitem_def case_a1_def mk_case_def)

theorem diagnosis_error_and_empty_witness:
  "(\<forall>vars. \<exists>e. chain_down vars = Inl e)
   \<and> (\<exists>e. simple_quick_diagnosis chain_down [] query_a1 [] = ([], error_response e))
   \<and> (\<exists>e cd. quick_diagnosis chain_down ([case_a1], []) query_a1 [] = ((cd, []), error_response e))
   \<and> (\<forall>vars. chain_empty vars = Inr [])
   \<and> simple_quick_diagnosis chain_empty [] query_a1 [] =
        ([HumanMessage query_a1, AIMessage []],
         \<lparr>answer = [], rtype = ''quick_diagnosis'', status = ''success'',
          error = None, similar_cases = None\<rparr>)
   \<and> quick_diagnosis chain_empty ([case_a1], []) query_a1 [] =
        (([setitem case_a1 ''similarity_score'' (PInt 1)], [HumanMessage query_a1, AIMessage []]),
         \<lparr>answer = [], rtype = ''quick_diagnosis'', status = ''success'',
          error = None, similar_cases = Some [setitem case_a1 ''similarity_score'' (PInt 1)]\<rparr>)"
proof -
  have d: "\<forall>vars. \<exists>e. chain_down vars = Inl e" by (simp add: chain_down_def)
  have e: "\<forall>vars. chain_empty vars = Inr []" by (simp add: chain_empty_def)
  from format_case_a1 obtain f where
    f: "format_cases [setitem case_a1 ''similarity_score'' (PInt 1)] = Inr f" by blast
  note t1 = diagnosis_error_and_empty[of chain_down "[]" query_a1 "[]" "[case_a1]"]
  note t2 = diagnosis_error_and_empty[of chain_empty "[]" query_a1 "[]" "[case_a1]"]
  from t1 d have 1: "(\<exists>e. simple_quick_diagnosis chain_down [] query_a1 [] = ([], error_response e))
     \<and> (\<exists>e cd. quick_diagnosis chain_down ([case_a1], []) query_a1 [] = ((cd, []), error_response e))"
    by blast
  from t2 e have 2: "simple_quick_diagnosis chain_empty [] query_a1 [] =
        ([] @ [HumanMessage query_a1, AIMessage []],
         \<lparr>answer = [], rtype = ''quick_diagnosis'', status = ''success'',
          error = None, similar_cases = None\<rparr>)"
    by blast
  from t2 e search_case_a1 f have 3: "quick_diagnosis chain_empty ([case_a1], []) query_a1 [] =
        (([setitem case_a1 ''similarity_score'' (PInt 1)], [] @ [HumanMessage query_a1, AIMessage []]),
         \<lparr>answer = [], rtype = ''quick_diagnosis'', status = ''success'',
          error = None, similar_cases = Some [setitem case_a1 ''similarity_score'' (PInt 1)]\<rparr>)"
    by blast
  from d e 1 2 3 show ?thesis by simp
qed

text \<open>
  C9 as stated fails: on an empty response both advisors answer with status \<open>success\<close>
  and the empty text, not with the apology.
\<close>

theorem empty_response_counterexample:
  "status (snd (simple_quick_diagnosis chain_empty [] query_a1 [])) = ''success''
   \<and> answer (snd (simple_quick_diagnosis chain_empty [] query_a1 [])) = []
   \<and> answer (snd (simple_quick_diagnosis chain_empty [] query_a1 [])) \<noteq> apology
   \<and> status (snd (quick_diagnosis chain_empty ([case_a1], []) query_a1 [])) = ''success''
   \<and> answer (snd (quick_diagnosis chain_empty ([case_a1], []) query_a1 [])) = []"
proof -
  from format_case_a1 obtain f where
    f: "format_cases [setitem case_a1 ''similarity_score'' (PInt 1)] = Inr f" by blast
  have "apology \<noteq> []" by (simp add: apology_def)
  then show ?thesis
    by (cases f) (simp add: simple_quick_diagnosis_def quick_diagnosis_def chain_empty_def
        search_case_a1 f)
qed

lemma matcher_nonempty:
  assumes "list_all well_formed corpus" "list_ex (\<lambda>c. 0 < shared_score q c) corpus"
  shows "\<exists>r rs. snd (search_similar_cases corpus q) = Inr (r # rs)"
proof -
  let ?S = "sort_key (\<lambda>c. - shared_score q c) (filter (\<lambda>c. 0 < shared_score q c) corpus)"
  from assms(2) have "filter (\<lambda>c. 0 < shared_score q c) corpus \<noteq> []"
    by (auto simp: list_ex_iff filter_empty_conv)
  then have "length ?S \<noteq> 0" by simp
  then obtain x xs where "?S = x # xs" by (cases ?S) auto
  moreover from assms(1) have "\<forall>c\<in>set corpus. well_formed c" by (simp add: list_all_iff)
  ultimately show ?thesis
    by (simp add: search_similar_cases_well_formed)
qed

text \<open>
  C1, amended.  When no vector store was loaded, or the retrieval chain raises,
  \<open>get_advice\<close> returns no source documents: with the plain answer of the completion
  model in the first case, with the fixed apology and status \<open>error\<close> in the second.
  It does not call the keyword matcher, which on the same well-formed corpus, one record
  of which shares a vocabulary term with the query, returns a non-empty list.
\<close>

theorem no_keyword_fallback:
  assumes "qa_chain = None \<or> (\<exists>chain e. qa_chain = Some chain \<and> chain q = Inl e)"
    and "list_all well_formed corpus"
    and "list_ex (\<lambda>c. 0 < shared_score q c) corpus"
  shows "source_documents (get_advice qa_chain llm q) = []
     \<and> (qa_chain \<noteq> None \<longrightarrow>
           advice_status (get_advice qa_chain llm q) = ''error''
           \<and> advice_answer (get_advice qa_chain llm q) = apology)
     \<and> (\<forall>ans. qa_chain = None \<and> llm (general_prompt q) = Inr ans \<longrightarrow>
           advice_status (get_advice qa_chain llm q) = ''success''
           \<and> advice_answer (get_advice qa_chain llm q) = ans)
     \<and> (\<exists>r rs. snd (search_similar_cases corpus q) = Inr (r # rs))"
proof (intro conjI)
  from assms(1) show "source_documents (get_advice qa_chain llm q) = []"
    by (auto simp: get_advice_def split: sum.splits)
  from assms(1) show "qa_chain \<noteq> None \<longrightarrow>
           advice_status (get_advice qa_chain llm q) = ''error''
           \<and> advice_answer (get_advice qa_chain llm q) = apology"
    by (auto simp: get_advice_def)
  show "\<forall>ans. qa_chain = None \<and> llm (general_prompt q) = Inr ans \<longrightarrow>
           advice_status (get_advice qa_chain llm q) = ''success''
           \<and> advice_answer (get_advice qa_chain llm q) = ans"
    by (auto simp: get_advice_def)
  from assms(2,3) show "\<exists>r rs. snd (search_similar_cases corpus q) = Inr (r # rs)"
    by (rule matcher_nonempty)
qed

lemma shared_score_a1: "shared_score query_a1 case_a1 = 1"
  by (simp add: shared_score_def shared_terms_def keywords_list_def query_a1_def)
     (simp add: mentions_def text_fields_def case_a1_def mk_case_def)

theorem no_keyword_fallback_witness:
  "list_all well_formed [case_a1]
   \<and> list_ex (\<lambda>c. 0 < shared_score query_a1 c) [case_a1]
   \<and> source_documents (get_advice None llm_ok query_a1) = []
   \<and> advice_status (get_advice None llm_ok query_a1) = ''success''
   \<and> source_documents (get_advice (Some qa_chain_down) llm_ok query_a1) = []
   \<and> advice_status (get_advice (Some qa_chain_down) llm_ok query_a1) = ''error''
   \<and> advice_answer (get_advice (Some qa_chain_down) llm_ok query_a1) = apology
   \<and> (\<exists>r rs. snd (search_similar_cases [case_a1] query_a1) = Inr (r # rs))"
proof -
  have wf: "list_all well_formed [case_a1]"
    by (simp add: well_formed_def text_fields_def case_a1_def mk_case_def)
  have ex: "list_ex (\<lambda>c. 0 < shared_score query_a1 c) [case_a1]"
    by (simp add: shared_score_a1)
  have n: "(None :: (pystr \<Rightarrow> py_error + pystr \<times> document list option) option) = None
            \<or> (\<exists>chain e. None = Some chain \<and> chain query_a1 = Inl e)" by simp
  have d: "Some qa_chain_down = None
            \<or> (\<exists>chain e. Some qa_chain_down = Some chain \<and> chain query_a1 = Inl e)"
    by (simp add: qa_chain_down_def)
  have l: "llm_ok (general_prompt query_a1) = Inr (map of_char ''ok'')"
    by (simp add: llm_ok_def)
  from no_keyword_fallback[OF n wf ex, of llm_ok] l
  have 1: "source_documents (get_advice None llm_ok query_a1) = []
     \<and> advice_status (get_advice None llm_ok query_a1) = ''success''
     \<and> (\<exists>r rs. snd (search_similar_cases [case_a1] query_a1) = Inr (r # rs))"
    by blast
  from no_keyword_fallback[OF d wf ex, of llm_ok]
  have 2: "source_documents (get_advice (Some qa_chain_down) llm_ok query_a1) = []
     \<and> advice_status (get_advice (Some qa_chain_down) llm_ok query_a1) = ''error''
     \<and> advice_answer (get_advice (Some qa_chain_down) llm_ok query_a1) = apology"
    by blast
  from wf ex 1 2 show ?thesis by blast
qed

text \<open>
  C1 as stated fails: on the scenario record and query, without a vector store and
  with a failing one, the vector paths return nothing while the keyword matcher returns
  the record.
\<close>

theorem degradation_counterexample:
  "source_documents (get_advice None llm_ok query_a1) = []
   \<and> source_documents (get_advice (Some qa_chain_down) llm_ok query_a1) = []
   \<and> vector_search None None query_a1 3 = ([] :: (pystr \<times> pydict \<times> real) list)
   \<and> snd (search_similar_cases [case_a1] query_a1)
        = Inr [setitem case_a1 ''similarity_score'' (PInt 1)]"
  by (simp add: get_advice_def llm_ok_def qa_chain_down_def vector_search_def search_case_a1)

end
